theory Spec2Isabelle
  imports Main
begin

section \<open>Errors, batches and channels\<close>

text \<open>
  Go's \<open>error\<close> values. \<open>nil\<close> is \<open>None\<close> of \<open>err option\<close>.
  \<open>Wrap prefix e\<close> stands for \<open>fmt.Errorf(prefix + "%w", e)\<close>, and
  \<open>ErrBackPressure d\<close> for
  \<open>fmt.Errorf("experienced back pressure beyond: %v", d)\<close>: the message is the
  fixed prefix followed by the rendering of the duration \<open>d\<close>.
\<close>

datatype err =
    Err string
  | Wrap string err
  | ErrAlreadyStarted
  | ErrTimeout
  | ErrNotConnected
  | ErrCloseSent
  | ErrBackPressure int
  | ErrCacheNotFound string

type_synonym batch = "string list"

type_synonym chan = nat

section \<open>Go's select statement over timed events\<close>

text \<open>
  A case of a \<open>select\<close> is a pair of the time at which its channel operation can
  proceed (\<open>None\<close>: never) and a tag. A select entered at time \<open>now\<close> proceeds at
  the earliest time at which some case is ready; a case that became ready before \<open>now\<close>
  is ready at \<open>now\<close>. When several cases are ready at that time Go chooses one at
  random: the choice is the number \<open>pick\<close>. With no case that ever becomes ready the
  select blocks forever (\<open>None\<close>).
\<close>

definition ready :: "int \<Rightarrow> (int option \<times> 'a) list \<Rightarrow> (int \<times> 'a) list" where
  "ready now cs =
     concat (map (\<lambda>(t, a). case t of None \<Rightarrow> [] | Some t' \<Rightarrow> [(max now t', a)]) cs)"

definition earliest :: "(int \<times> 'a) list \<Rightarrow> (int \<times> 'a) list" where
  "earliest rs = filter (\<lambda>r. list_all (\<lambda>r'. fst r \<le> fst r') rs) rs"

definition go_select :: "nat \<Rightarrow> int \<Rightarrow> (int option \<times> 'a) list \<Rightarrow> (int \<times> 'a) option" where
  "go_select pick now cs =
     (let es = earliest (ready now cs)
      in if es = [] then None else Some (es ! (pick mod length es)))"

datatype sel = SelSend | SelTick | SelDone | SelRes | SelAck | SelClosed

section \<open>The child output\<close>

text \<open>
  Modelled from the spec: the child of the decorator is a value of the interface
  \<open>output.Streamed\<close>, whose implementations are not among the sources. The spec's
  Streamed Component contract (section 3) gives what is modelled here: \<open>Consume\<close>
  binds an inbound channel and fails with "already started" when the component is
  bound already; \<open>CloseAsync\<close> requests the shutdown and does not block;
  \<open>WaitForClose(timeout)\<close> blocks until the shutdown completes or the timeout
  elapses, returning a timeout error in the latter case.
  \<open>c_refuses\<close> is the error with which the child declines to start, if any, and
  \<open>c_closes_in\<close> the time its shutdown takes once requested (\<open>None\<close>: it never
  completes).
\<close>

record child =
  c_in :: "chan option"
  c_refuses :: "err option"
  c_closing :: bool
  c_closes_in :: "int option"
  c_closed :: bool

definition child_Consume :: "child \<Rightarrow> chan \<Rightarrow> err option \<times> child" where
  "child_Consume c ch =
     (if c_in c \<noteq> None then (Some ErrAlreadyStarted, c)
      else case c_refuses c of
             Some e \<Rightarrow> (Some e, c)
           | None \<Rightarrow> (None, c\<lparr>c_in := Some ch\<rparr>))"

definition child_CloseAsync :: "child \<Rightarrow> child" where
  "child_CloseAsync c = c\<lparr>c_closing := True\<rparr>"

definition child_WaitForClose :: "child \<Rightarrow> int \<Rightarrow> err option \<times> child" where
  "child_WaitForClose c timeout =
     (case c_closes_in c of
        None \<Rightarrow> (Some ErrTimeout, c)
      | Some t \<Rightarrow>
          if c_closing c \<and> t \<le> timeout then (None, c\<lparr>c_closed := True\<rparr>)
          else (Some ErrTimeout, c))"

section \<open>drop\_on.go: configuration and construction\<close>

record DropOnConditions =
  Error :: bool
  BackPressure :: string

text \<open>
  The struct \<open>dropOn\<close>. \<open>transactionsIn\<close> is \<open>None\<close> while the field is the nil
  channel. \<open>outClosed\<close> and \<open>closedChan\<close> say whether \<open>transactionsOut\<close> and
  \<open>closedChan\<close> have been closed, \<open>ctxDone\<close> whether \<open>done()\<close> has cancelled
  the context, and \<open>loops\<close> counts the goroutines started with \<open>go d.loop()\<close>.
\<close>

record dropOn =
  onError :: bool
  onBackpressure :: int
  wrapped :: child
  transactionsIn :: "chan option"
  transactionsOut :: chan
  outClosed :: bool
  ctxDone :: bool
  closedChan :: bool
  loops :: nat

text \<open>
  \<open>newDropOn\<close>. \<open>time.ParseDuration\<close> belongs to Go's standard library and is the
  parameter \<open>parse\<close>; \<open>out\<close> is the channel that \<open>make\<close> allocates.
\<close>

definition newDropOn ::
  "(string \<Rightarrow> err + int) \<Rightarrow> chan \<Rightarrow> DropOnConditions \<Rightarrow> child \<Rightarrow> err + dropOn" where
  "newDropOn parse out conf w =
     (case (if length (BackPressure conf) > 0
            then (case parse (BackPressure conf) of
                    Inl e \<Rightarrow> Inl (Wrap ''failed to parse back_pressure duration: '' e)
                  | Inr b \<Rightarrow> Inr b)
            else Inr 0) of
        Inl e \<Rightarrow> Inl e
      | Inr backPressure \<Rightarrow>
          Inr \<lparr>onError = Error conf, onBackpressure = backPressure, wrapped = w,
               transactionsIn = None, transactionsOut = out, outClosed = False,
               ctxDone = False, closedChan = False, loops = 0\<rparr>)"

text \<open>
  A duration parser to instantiate \<open>parse\<close> at concrete inputs: it knows two of the
  strings of the component's documentation (in nanoseconds) and rejects every other
  string, among them the empty string, which \<open>time.ParseDuration\<close> rejects too.
\<close>

definition sample_ParseDuration :: "string \<Rightarrow> err + int" where
  "sample_ParseDuration s =
     (if s = ''10ms'' then Inr 10000000
      else if s = ''30s'' then Inr 30000000000
      else Inl (Err ''time: invalid duration''))"

section \<open>drop\_on.go: Consume, CloseAsync, WaitForClose\<close>

definition dropOn_Consume :: "dropOn \<Rightarrow> chan option \<Rightarrow> err option \<times> dropOn" where
  "dropOn_Consume d ts =
     (if transactionsIn d \<noteq> None then (Some ErrAlreadyStarted, d)
      else case child_Consume (wrapped d) (transactionsOut d) of
             (Some e, c) \<Rightarrow> (Some e, d\<lparr>wrapped := c\<rparr>)
           | (None, c) \<Rightarrow>
               (None, d\<lparr>wrapped := c, transactionsIn := ts, loops := Suc (loops d)\<rparr>))"

definition dropOn_CloseAsync :: "dropOn \<Rightarrow> dropOn" where
  "dropOn_CloseAsync d = d\<lparr>ctxDone := True\<rparr>"

text \<open>
  \<open>WaitForClose\<close> selects between \<open>closedChan\<close> and \<open>time.After(timeout)\<close>.
  A closed channel is ready at once; one that is still open becomes ready at
  \<open>closes_at\<close>, the time at which the loop closes it (\<open>None\<close>: never).
\<close>

definition dropOn_WaitForClose :: "nat \<Rightarrow> int option \<Rightarrow> dropOn \<Rightarrow> int \<Rightarrow> err option" where
  "dropOn_WaitForClose pick closes_at d timeout =
     (case go_select pick 0
             [(if closedChan d then Some 0 else closes_at, SelClosed),
              (Some timeout, SelTick)] of
        Some (t, SelClosed) \<Rightarrow> None
      | _ \<Rightarrow> Some ErrTimeout)"

section \<open>drop\_on.go: one pass of the forwarding loop\<close>

text \<open>
  What the surroundings of the loop do while one transaction is handled. Times count
  from the moment the transaction was received, which is when the ticker is created.
  \<^item> \<open>child_ready\<close>: when the child is ready to receive on \<open>transactionsOut\<close>;
  \<^item> \<open>reply_after\<close>, \<open>reply\<close>: how long after the child took the transaction a value
    can be received from \<open>resChan\<close>, and that value;
  \<^item> \<open>ctx_done\<close>: when the decorator's context is cancelled;
  \<^item> \<open>ack_after\<close>: how long after the call of \<open>Ack\<close> the producer receives from
    the transaction's ack channel;
  \<^item> \<open>pick_send\<close>, \<open>pick_wait\<close>, \<open>pick_ack\<close>: the random choices of the selects.
\<close>

record env =
  child_ready :: "int option"
  reply_after :: "int option"
  reply :: "err option"
  ctx_done :: "int option"
  ack_after :: "int option"
  pick_send :: nat
  pick_wait :: nat
  pick_ack :: nat

text \<open>What the loop does, in the order in which it does it.\<close>

datatype event =
    TrySend batch bool
  | Send batch int
  | SendTimeout int
  | Result "err option" int
  | WaitTimeout int
  | Reclaim
  | WarnBackPressure
  | WarnError err
  | AckCall "err option" int
  | AckUp "err option" int

text \<open>
  The local variables of a pass: \<open>gotBackPressure\<close>, \<open>res\<close>, the clock and the
  events so far. A step either goes on (\<open>Next\<close>), makes the loop return (\<open>Exit\<close>)
  or blocks forever (\<open>Stuck\<close>).
\<close>

record frame =
  gotBackPressure :: bool
  res :: "err option"
  now :: int
  trace :: "event list"

datatype ctl = Next | Exit | Stuck

definition log :: "event list \<Rightarrow> frame \<Rightarrow> frame" where
  "log es f = f\<lparr>trace := trace f @ es\<rparr>"

text \<open>
  The first half of the closure of the back pressure branch: the non-blocking send of
  the sticky state, or the send guarded by the ticker and the context.
\<close>

definition offer :: "dropOn \<Rightarrow> env \<Rightarrow> batch \<Rightarrow> frame \<Rightarrow> ctl \<times> frame" where
  "offer d e p f =
     (if gotBackPressure f then
        (case child_ready e of
           None \<Rightarrow> (Next, log [TrySend p False] f)
         | Some t \<Rightarrow>
             if t \<le> now f then (Next, log [TrySend p True] (f\<lparr>gotBackPressure := False\<rparr>))
             else (Next, log [TrySend p False] f))
      else
        (case go_select (pick_send e) (now f)
                [(child_ready e, SelSend), (Some (onBackpressure d), SelTick),
                 (ctx_done e, SelDone)] of
           None \<Rightarrow> (Stuck, f)
         | Some (t, SelSend) \<Rightarrow> (Next, log [Send p t] (f\<lparr>now := t\<rparr>))
         | Some (t, SelTick) \<Rightarrow>
             (Next, log [SendTimeout t] (f\<lparr>gotBackPressure := True, now := t\<rparr>))
         | Some (t, _) \<Rightarrow> (Exit, f\<lparr>now := t\<rparr>)))"

text \<open>The second half: the wait for the result, under the same ticker.\<close>

definition await :: "dropOn \<Rightarrow> env \<Rightarrow> frame \<Rightarrow> ctl \<times> frame" where
  "await d e f =
     (if \<not> gotBackPressure f then
        (case go_select (pick_wait e) (now f)
                [(map_option (\<lambda>r. now f + r) (reply_after e), SelRes),
                 (Some (onBackpressure d), SelTick), (ctx_done e, SelDone)] of
           None \<Rightarrow> (Stuck, f)
         | Some (t, SelRes) \<Rightarrow> (Next, log [Result (reply e) t] (f\<lparr>res := reply e, now := t\<rparr>))
         | Some (t, SelTick) \<Rightarrow>
             (Next, log [WaitTimeout t, Reclaim] (f\<lparr>gotBackPressure := True, now := t\<rparr>))
         | Some (t, _) \<Rightarrow> (Exit, f\<lparr>now := t\<rparr>))
      else (Next, f))"

definition dropped :: "dropOn \<Rightarrow> frame \<Rightarrow> frame" where
  "dropped d f =
     (if gotBackPressure f then
        log [WarnBackPressure]
          (f\<lparr>res := (if onError d then None else Some (ErrBackPressure (onBackpressure d)))\<rparr>)
      else f)"

definition guarded :: "dropOn \<Rightarrow> env \<Rightarrow> batch \<Rightarrow> frame \<Rightarrow> ctl \<times> frame" where
  "guarded d e p f =
     (case offer d e p f of
        (Next, f1) \<Rightarrow>
          (case await d e f1 of
             (Next, f2) \<Rightarrow> (Next, dropped d f2)
           | r \<Rightarrow> r)
      | r \<Rightarrow> r)"

text \<open>The else branch: push as usual and wait as long as it takes.\<close>

definition unguarded :: "env \<Rightarrow> batch \<Rightarrow> frame \<Rightarrow> ctl \<times> frame" where
  "unguarded e p f =
     (case go_select (pick_send e) (now f)
             [(child_ready e, SelSend), (ctx_done e, SelDone)] of
        None \<Rightarrow> (Stuck, f)
      | Some (t, SelSend) \<Rightarrow>
          (case go_select (pick_wait e) t
                  [(map_option (\<lambda>r. t + r) (reply_after e), SelRes), (ctx_done e, SelDone)] of
             None \<Rightarrow> (Stuck, log [Send p t] (f\<lparr>now := t\<rparr>))
           | Some (u, SelRes) \<Rightarrow>
               (Next, log [Send p t, Result (reply e) u] (f\<lparr>res := reply e, now := u\<rparr>))
           | Some (u, _) \<Rightarrow> (Exit, log [Send p t] (f\<lparr>now := u\<rparr>)))
      | Some (t, _) \<Rightarrow> (Exit, f\<lparr>now := t\<rparr>))"

definition drop_error :: "dropOn \<Rightarrow> frame \<Rightarrow> frame" where
  "drop_error d f =
     (case res f of
        None \<Rightarrow> f
      | Some x \<Rightarrow> if onError d then log [WarnError x] (f\<lparr>res := None\<rparr>) else f)"

text \<open>
  Modelled from the spec: \<open>Transaction.Ack\<close> is not among the sources. By the spec
  (section 3) it delivers the result on the transaction's unbuffered ack channel and
  accepts a cancellation context: if the context is cancelled before the producer accepts
  the acknowledgement it returns an error. The loop then returns, since the context it
  passed is its own (\<open>err != nil && d.ctx.Err() != nil\<close>).
\<close>

definition Ack :: "env \<Rightarrow> frame \<Rightarrow> ctl \<times> frame" where
  "Ack e f =
     (case go_select (pick_ack e) (now f)
             [(map_option (\<lambda>a. now f + a) (ack_after e), SelAck), (ctx_done e, SelDone)] of
        None \<Rightarrow> (Stuck, log [AckCall (res f) (now f)] f)
      | Some (t, SelAck) \<Rightarrow>
          (Next, log [AckCall (res f) (now f), AckUp (res f) t] (f\<lparr>now := t\<rparr>))
      | Some (t, _) \<Rightarrow> (Exit, log [AckCall (res f) (now f)] (f\<lparr>now := t\<rparr>)))"

text \<open>
  The body of the \<open>for\<close> loop after a transaction with payload \<open>p\<close> has been
  received, with \<open>g\<close> the value of \<open>gotBackPressure\<close>.
\<close>

definition handle :: "dropOn \<Rightarrow> bool \<Rightarrow> env \<Rightarrow> batch \<Rightarrow> ctl \<times> frame" where
  "handle d g e p =
     (case (if onBackpressure d > 0
            then guarded d e p \<lparr>gotBackPressure = g, res = None, now = 0, trace = []\<rparr>
            else unguarded e p \<lparr>gotBackPressure = g, res = None, now = 0, trace = []\<rparr>) of
        (Next, f) \<Rightarrow> Ack e (drop_error d f)
      | r \<Rightarrow> r)"

section \<open>drop\_on.go: the forwarding loop\<close>

text \<open>
  What the select at the head of the loop yields: a transaction (with what happens around
  it while it is handled), the closed inbound channel, or the cancelled context. When
  nothing more arrives the loop stays blocked in that select.
\<close>

datatype recv = Transaction batch env | Closed | Done

datatype lev =
    At nat event
  | CloseTransactionsOut
  | ChildCloseAsync
  | ChildWaitForClose int "err option"
  | CloseClosedChan

fun rounds :: "dropOn \<Rightarrow> bool \<Rightarrow> nat \<Rightarrow> recv list \<Rightarrow> lev list \<times> bool" where
  "rounds d g i [] = ([], False)"
| "rounds d g i (Closed # rs) = ([], True)"
| "rounds d g i (Done # rs) = ([], True)"
| "rounds d g i (Transaction p e # rs) =
     (case handle d g e p of
        (Next, f) \<Rightarrow>
          (case rounds d (gotBackPressure f) (Suc i) rs of
             (tr, fin) \<Rightarrow> (map (At i) (trace f) @ tr, fin))
      | (Exit, f) \<Rightarrow> (map (At i) (trace f), True)
      | (Stuck, f) \<Rightarrow> (map (At i) (trace f), False))"

text \<open>
  The deferred function. \<open>maxWait\<close> is \<open>shutdown.MaximumShutdownWait()\<close>, a
  constant of a package that is not among the sources.
\<close>

definition deferred :: "int \<Rightarrow> dropOn \<Rightarrow> lev list \<times> dropOn" where
  "deferred maxWait d =
     (let c1 = child_CloseAsync (wrapped d);
          (r, c2) = child_WaitForClose c1 maxWait
      in ([CloseTransactionsOut, ChildCloseAsync, ChildWaitForClose maxWait r, CloseClosedChan],
          d\<lparr>outClosed := True, wrapped := c2, closedChan := True\<rparr>))"

definition loop :: "int \<Rightarrow> dropOn \<Rightarrow> recv list \<Rightarrow> lev list \<times> dropOn" where
  "loop maxWait d rs =
     (case rounds d False 0 rs of
        (tr, True) \<Rightarrow> (case deferred maxWait d of (tr', d') \<Rightarrow> (tr @ tr', d'))
      | (tr, False) \<Rightarrow> (tr, d))"

section \<open>writer/websocket.go\<close>

type_synonym conn = nat

record Websocket =
  ws_url :: string
  ws_tls :: bool
  client :: "conn option"

text \<open>
  What the network does during one \<open>ConnectWithContext\<close>: the errors of
  \<open>url.Parse\<close> and of \<open>Sign\<close>, and the result of the dialer.
\<close>

record net =
  url_parse :: "err option"
  sign :: "err option"
  dial :: "err + conn"

datatype ws_event = Dial bool string | Reader conn

definition ConnectWithContext :: "net \<Rightarrow> Websocket \<Rightarrow> err option \<times> Websocket \<times> ws_event list" where
  "ConnectWithContext n w =
     (if client w \<noteq> None then (None, w, [])
      else case url_parse n of
             Some e \<Rightarrow> (Some e, w, [])
           | None \<Rightarrow>
               (case sign n of
                  Some e \<Rightarrow> (Some e, w, [])
                | None \<Rightarrow>
                    (case dial n of
                       Inl e \<Rightarrow> (Some e, w, [Dial (ws_tls w) (ws_url w)])
                     | Inr c \<Rightarrow>
                         (None, w\<lparr>client := Some c\<rparr>, [Dial (ws_tls w) (ws_url w), Reader c]))))"

text \<open>
  \<open>Batch.Iter\<close> calls the function on each part in turn and returns its first error.
\<close>

fun Iter :: "(nat \<Rightarrow> string \<Rightarrow> err option) \<Rightarrow> nat \<Rightarrow> batch \<Rightarrow> err option" where
  "Iter f i [] = None"
| "Iter f i (p # ps) = (case f i p of Some e \<Rightarrow> Some e | None \<Rightarrow> Iter f (Suc i) ps)"

text \<open>\<open>wr c p\<close> is the result of \<open>client.WriteMessage\<close> on connection \<open>c\<close>.\<close>

definition WriteWithContext ::
  "(conn \<Rightarrow> string \<Rightarrow> err option) \<Rightarrow> Websocket \<Rightarrow> batch \<Rightarrow> err option \<times> Websocket" where
  "WriteWithContext wr w msg =
     (case client w of
        None \<Rightarrow> (Some ErrNotConnected, w)
      | Some c \<Rightarrow>
          (case Iter (\<lambda>i p. wr c p) 0 msg of
             Some e \<Rightarrow>
               (Some (if e = ErrCloseSent then ErrNotConnected else e), w\<lparr>client := None\<rparr>)
           | None \<Rightarrow> (None, w)))"

section \<open>The cache writer: NewCache\<close>

record CacheConfig =
  Target :: string
  Key :: string
  TTL :: string
  MaxInFlight :: int

record 'x Cache =
  conf :: CacheConfig
  key :: 'x
  ttl :: 'x

text \<open>
  \<open>NewField\<close> of the manager's expression environment and \<open>ProbeCache\<close> belong to
  packages that are not among the sources: they are the parameters \<open>newField\<close> and
  \<open>probeCache\<close>.
\<close>

definition NewCache ::
  "(string \<Rightarrow> err + 'x) \<Rightarrow> (string \<Rightarrow> bool) \<Rightarrow> CacheConfig \<Rightarrow> err + 'x Cache" where
  "NewCache newField probeCache cf =
     (case newField (Key cf) of
        Inl e \<Rightarrow> Inl (Wrap ''failed to parse key expression: '' e)
      | Inr k \<Rightarrow>
          (case newField (TTL cf) of
             Inl e \<Rightarrow> Inl (Wrap ''failed to parse ttl expression: '' e)
           | Inr t \<Rightarrow>
               if \<not> probeCache (Target cf) then Inl (ErrCacheNotFound (Target cf))
               else Inr \<lparr>conf = cf, key = k, ttl = t\<rparr>))"

text \<open>
  An expression parser to instantiate \<open>newField\<close> at concrete inputs: it rejects an
  interpolation that is opened and never closed and takes every other string as it is.
\<close>

definition sample_NewField :: "string \<Rightarrow> err + string" where
  "sample_NewField s =
     (if s = ''${!'' then Inl (Err ''expected end of expression'') else Inr s)"

definition sample_probe :: "string \<Rightarrow> bool" where
  "sample_probe s = (s = ''foo'')"

section \<open>Observations on runs\<close>

fun is_AckUp :: "event \<Rightarrow> bool" where
  "is_AckUp (AckUp v t) = True"
| "is_AckUp _ = False"



text \<open>The context is not cancelled up to and including time \<open>t\<close>.\<close>

definition quiet :: "env \<Rightarrow> int \<Rightarrow> bool" where
  "quiet e t = (case ctx_done e of None \<Rightarrow> True | Some c \<Rightarrow> t < c)"

text \<open>What an acknowledgement of a message dropped for back pressure carries.\<close>

definition drop_result :: "dropOn \<Rightarrow> err option" where
  "drop_result d = (if onError d then None else Some (ErrBackPressure (onBackpressure d)))"

text \<open>The events in which the loop offers the transaction to the child.\<close>

fun is_send :: "event \<Rightarrow> bool" where
  "is_send (TrySend p b) = True"
| "is_send (Send p t) = True"
| "is_send (SendTimeout t) = True"
| "is_send _ = False"

text \<open>
  What the select at the head of the loop can yield once the context is cancelled: the
  cancellation itself, the closed channel, or a transaction, during whose pass the
  cancelled context is ready.
\<close>

fun interrupted :: "recv \<Rightarrow> bool" where
  "interrupted (Transaction p e) = (ctx_done e \<noteq> None)"
| "interrupted Closed = True"
| "interrupted Done = True"

section \<open>Sample inputs\<close>

definition sample_child :: child where
  "sample_child =
     \<lparr>c_in = None, c_refuses = None, c_closing = False, c_closes_in = Some 5,
      c_closed = False\<rparr>"

definition sample_dropOn :: dropOn where
  "sample_dropOn =
     \<lparr>onError = False, onBackpressure = 10, wrapped = sample_child,
      transactionsIn = None, transactionsOut = 1, outClosed = False,
      ctxDone = False, closedChan = False, loops = 0\<rparr>"

definition empty_conditions :: DropOnConditions where
  "empty_conditions = \<lparr>Error = False, BackPressure = []\<rparr>"

definition bad_conditions :: DropOnConditions where
  "bad_conditions = \<lparr>Error = False, BackPressure = ''soon''\<rparr>"

definition bad_cache :: CacheConfig where
  "bad_cache = \<lparr>Target = ''foo'', Key = ''${!'', TTL = [], MaxInFlight = 64\<rparr>"

definition live_socket :: Websocket where
  "live_socket = \<lparr>ws_url = ''ws://example.com/foo/messages'', ws_tls = False, client = Some 3\<rparr>"

definition broken_pipe :: "conn \<Rightarrow> string \<Rightarrow> err option" where
  "broken_pipe c p = (if p = ''b'' then Some ErrCloseSent else None)"

definition redial :: net where
  "redial = \<lparr>url_parse = None, sign = None, dial = Inr 4\<rparr>"

definition env_prompt :: env where
  "env_prompt = \<lparr>child_ready = Some 2, reply_after = Some 3, reply = None, ctx_done = None,
      ack_after = Some 1, pick_send = 0, pick_wait = 0, pick_ack = 0\<rparr>"

definition env_stalled :: env where
  "env_stalled = env_prompt\<lparr>child_ready := None, reply_after := None\<rparr>"

definition env_slow_reply :: env where
  "env_slow_reply = env_prompt\<lparr>child_ready := Some 6, reply_after := Some 6\<rparr>"

definition env_cancelled :: env where
  "env_cancelled = env_stalled\<lparr>ctx_done := Some 3\<rparr>"

definition env_failing :: env where
  "env_failing = env_prompt\<lparr>reply := Some (Err ''write failed'')\<rparr>"

definition env_ready_now :: env where
  "env_ready_now = env_prompt\<lparr>child_ready := Some 0\<rparr>"

definition env_silent :: env where
  "env_silent = env_prompt\<lparr>reply_after := None\<rparr>"

definition stubborn_dropOn :: dropOn where
  "stubborn_dropOn = sample_dropOn\<lparr>wrapped := sample_child\<lparr>c_closes_in := None\<rparr>\<rparr>"

section \<open>Construction\<close>

text \<open>
  Claim C7, as amended. A back pressure string that is not empty and that the duration
  parser rejects makes \<open>newDropOn\<close> return the wrapped parse error, and no decorator;
  a key or a TTL expression that the expression parser rejects makes \<open>NewCache\<close>
  return an error, and no writer. The empty back pressure string is never given to the
  parser: with it \<open>newDropOn\<close> builds a decorator whose back pressure mode is off.
\<close>

theorem construction_errors:
  "(BackPressure cf \<noteq> [] \<and> parse (BackPressure cf) = Inl e
      \<longrightarrow> newDropOn parse out cf w = Inl (Wrap ''failed to parse back_pressure duration: '' e))
   \<and> (newField (Key cc) = Inl e1 \<or> newField (TTL cc) = Inl e2
      \<longrightarrow> (\<exists>x. NewCache newField probe cc = Inl x))
   \<and> (\<exists>d. newDropOn parse out (cf\<lparr>BackPressure := []\<rparr>) w = Inr d \<and> onBackpressure d = 0)"
  by (auto simp: newDropOn_def NewCache_def split: sum.splits)

theorem construction_errors_witness:
  "BackPressure bad_conditions \<noteq> []
   \<and> sample_ParseDuration (BackPressure bad_conditions) = Inl (Err ''time: invalid duration'')
   \<and> newDropOn sample_ParseDuration 1 bad_conditions sample_child
       = Inl (Wrap ''failed to parse back_pressure duration: '' (Err ''time: invalid duration''))
   \<and> sample_NewField (Key bad_cache) = Inl (Err ''expected end of expression'')
   \<and> (\<exists>x. NewCache sample_NewField sample_probe bad_cache = Inl x)"
  using construction_errors [of bad_conditions sample_ParseDuration "Err ''time: invalid duration''"
      1 sample_child sample_NewField bad_cache "Err ''expected end of expression''"
      "Err ''expected end of expression''" sample_probe]
  by (simp add: bad_conditions_def sample_ParseDuration_def sample_NewField_def bad_cache_def)

text \<open>
  Claim C7 as stated fails at the empty string: the parser rejects it, and \<open>newDropOn\<close>
  returns a decorator all the same.
\<close>

theorem construction_errors_counterexample:
  "sample_ParseDuration (BackPressure empty_conditions) = Inl (Err ''time: invalid duration'')
   \<and> newDropOn sample_ParseDuration 1 empty_conditions sample_child
       = Inr (sample_dropOn\<lparr>onBackpressure := 0\<rparr>)"
  by (simp add: newDropOn_def sample_ParseDuration_def empty_conditions_def sample_dropOn_def)

section \<open>Consume\<close>

text \<open>
  Claim C9. After a \<open>Consume\<close> that succeeded, a second \<open>Consume\<close> returns the
  error "already started" and leaves the decorator as it was: the inbound channel bound by
  the first call, the child's binding and the number of forwarding loops (one) are those
  the first call left.
\<close>

theorem Consume_twice:
  assumes "dropOn_Consume d ts1 = (None, d1)"
  shows "dropOn_Consume d1 ts2 = (Some ErrAlreadyStarted, d1)
         \<and> transactionsIn d1 = ts1
         \<and> c_in (wrapped d1) = Some (transactionsOut d)
         \<and> loops d1 = Suc (loops d)"
  using assms
  by (auto simp: dropOn_Consume_def child_Consume_def
           split: if_splits option.splits prod.splits)

theorem Consume_twice_witness:
  "dropOn_Consume sample_dropOn (Some 7) = (None, snd (dropOn_Consume sample_dropOn (Some 7)))
   \<and> dropOn_Consume (snd (dropOn_Consume sample_dropOn (Some 7))) (Some 8)
       = (Some ErrAlreadyStarted, snd (dropOn_Consume sample_dropOn (Some 7)))
   \<and> transactionsIn (snd (dropOn_Consume sample_dropOn (Some 7))) = Some 7
   \<and> loops (snd (dropOn_Consume sample_dropOn (Some 7))) = 1"
  using Consume_twice [of sample_dropOn "Some 7" "snd (dropOn_Consume sample_dropOn (Some 7))"
      "Some 8"]
  by (simp add: dropOn_Consume_def child_Consume_def sample_dropOn_def sample_child_def)

section \<open>The websocket writer\<close>

text \<open>
  Claim C8. When \<open>WriteWithContext\<close> returns an error the stored connection is
  cleared, so that the next \<open>ConnectWithContext\<close> does not return early: it returns
  nil only after the dialer has been called and with the connection the dialer returned
  stored, and with any error no connection is stored; once the URL is parsed and the
  request signed it does call the dialer. And \<open>ConnectWithContext\<close> on a writer
  that holds a connection returns nil, dials nothing and leaves the writer as it is.
\<close>

theorem reconnect_after_write_failure:
  assumes "WriteWithContext wr w msg = (Some e, w')"
  shows "client w' = None
         \<and> (\<exists>r w'' es. ConnectWithContext n w' = (r, w'', es)
               \<and> (case r of
                     None \<Rightarrow> (\<exists>c. dial n = Inr c \<and> client w'' = Some c
                                 \<and> es = [Dial (ws_tls w') (ws_url w'), Reader c])
                   | Some x \<Rightarrow> client w'' = None))
         \<and> (url_parse n = None \<and> sign n = None \<longrightarrow>
              ConnectWithContext n w' =
                (case dial n of
                   Inl x \<Rightarrow> (Some x, w', [Dial (ws_tls w') (ws_url w')])
                 | Inr c \<Rightarrow> (None, w'\<lparr>client := Some c\<rparr>,
                             [Dial (ws_tls w') (ws_url w'), Reader c])))
         \<and> (client w0 \<noteq> None \<longrightarrow> ConnectWithContext n0 w0 = (None, w0, []))"
  using assms
  by (auto simp: WriteWithContext_def ConnectWithContext_def split: option.splits sum.splits)

theorem reconnect_after_write_failure_witness:
  "WriteWithContext broken_pipe live_socket [''a'', ''b'', ''c'']
     = (Some ErrNotConnected, live_socket\<lparr>client := None\<rparr>)
   \<and> url_parse redial = None \<and> sign redial = None
   \<and> ConnectWithContext redial (live_socket\<lparr>client := None\<rparr>)
       = (None, live_socket\<lparr>client := Some 4\<rparr>,
          [Dial False ''ws://example.com/foo/messages'', Reader 4])
   \<and> client live_socket \<noteq> None
   \<and> ConnectWithContext redial live_socket = (None, live_socket, [])"
  using reconnect_after_write_failure [of broken_pipe live_socket "[''a'', ''b'', ''c'']"
      ErrNotConnected "live_socket\<lparr>client := None\<rparr>" redial live_socket redial]
  by (simp add: WriteWithContext_def broken_pipe_def live_socket_def redial_def)

section \<open>Facts about select\<close>

lemma set_ready: "set (ready n0 cs) = {(max n0 t, a) | t a. (Some t, a) \<in> set cs}"
  by (induction cs) (auto simp: ready_def split: option.splits)

lemma earliest_nonempty:
  assumes "rs \<noteq> []"
  shows "earliest rs \<noteq> []"
proof -
  from assms have "Min (fst ` set rs) \<in> fst ` set rs"
    by (intro Min_in) auto
  then obtain r where r: "r \<in> set rs" "fst r = Min (fst ` set rs)"
    by auto
  then have "\<forall>r' \<in> set rs. fst r \<le> fst r'"
    by auto
  with r have "r \<in> set (earliest rs)"
    by (auto simp: earliest_def list_all_iff)
  then show ?thesis
    by auto
qed

lemma go_select_None: "go_select pick n0 cs = None \<longleftrightarrow> (\<forall>a t. (Some t, a) \<notin> set cs)"
proof
  assume "go_select pick n0 cs = None"
  then have "earliest (ready n0 cs) = []"
    by (auto simp: go_select_def Let_def split: if_splits)
  then have "set (ready n0 cs) = {}"
    using earliest_nonempty by fastforce
  then show "\<forall>a t. (Some t, a) \<notin> set cs"
    unfolding set_ready by blast
next
  assume "\<forall>a t. (Some t, a) \<notin> set cs"
  then have "set (ready n0 cs) = {}"
    unfolding set_ready by auto
  then show "go_select pick n0 cs = None"
    by (simp add: go_select_def earliest_def)
qed

lemma go_select_Some:
  assumes "go_select pick n0 cs = Some (t, a)"
  shows "\<exists>t'. (Some t', a) \<in> set cs \<and> t = max n0 t'"
    and "\<And>t' b. (Some t', b) \<in> set cs \<Longrightarrow> t \<le> max n0 t'"
proof -
  let ?es = "earliest (ready n0 cs)"
  from assms have "?es \<noteq> []" and "(t, a) = ?es ! (pick mod length ?es)"
    by (auto simp: go_select_def Let_def split: if_splits)
  then have "(t, a) \<in> set ?es"
    by (metis length_greater_0_conv mod_less_divisor nth_mem)
  then have m: "(t, a) \<in> set (ready n0 cs)"
    and mn: "\<forall>r' \<in> set (ready n0 cs). t \<le> fst r'"
    by (auto simp: earliest_def list_all_iff)
  from m show "\<exists>t'. (Some t', a) \<in> set cs \<and> t = max n0 t'"
    unfolding set_ready by auto
  fix t' b
  assume "(Some t', b) \<in> set cs"
  then have "(max n0 t', b) \<in> set (ready n0 cs)"
    unfolding set_ready by auto
  with mn show "t \<le> max n0 t'"
    by fastforce
qed

text \<open>A case that is ready strictly before every other case is the one chosen.\<close>

lemma go_select_wins:
  assumes "(Some t, x) \<in> set cs" and "n0 \<le> t"
    and "\<And>u y. (Some u, y) \<in> set cs \<Longrightarrow> (y = x \<and> u = t) \<or> t < u"
  shows "go_select pick n0 cs = Some (t, x)"
proof -
  from assms(1) have "go_select pick n0 cs \<noteq> None"
    by (auto simp: go_select_None)
  then obtain t' b where s: "go_select pick n0 cs = Some (t', b)"
    by (cases "go_select pick n0 cs") auto
  from go_select_Some(1)[OF s] obtain u where u: "(Some u, b) \<in> set cs" "t' = max n0 u"
    by auto
  from go_select_Some(2)[OF s assms(1)] assms(2) have "t' \<le> t"
    by simp
  with assms(3)[OF u(1)] u(2) assms(2) have "b = x \<and> u = t"
    by auto
  with s u assms(2) show ?thesis
    by simp
qed


section \<open>Facts about one pass of the loop\<close>

lemmas pass_splits = if_splits option.splits prod.splits sel.splits ctl.splits


lemma go_select_None2 [simp]:
  "go_select pick n0 [(a, x), (b, y)] = None \<longleftrightarrow> a = None \<and> b = None"
  unfolding go_select_None by (cases a; cases b) auto

lemma go_select_None3 [simp]:
  "go_select pick n0 [(a, x), (b, y), (c, z)] = None \<longleftrightarrow> a = None \<and> b = None \<and> c = None"
  unfolding go_select_None by (cases a; cases b; cases c) auto

lemma offer_cases [consumes 1, case_names miss hit sent late gone]:
  assumes "offer d e p f = (c, f')"
  obtains "gotBackPressure f" "c = Next" "f' = log [TrySend p False] f"
    | "gotBackPressure f" "c = Next" "f' = log [TrySend p True] (f\<lparr>gotBackPressure := False\<rparr>)"
    | t where "\<not> gotBackPressure f" "c = Next" "f' = log [Send p t] (f\<lparr>now := t\<rparr>)"
    | t where "\<not> gotBackPressure f" "c = Next"
        "f' = log [SendTimeout t] (f\<lparr>gotBackPressure := True, now := t\<rparr>)"
    | t where "\<not> gotBackPressure f" "c = Exit" "f' = f\<lparr>now := t\<rparr>"
  using assms by (auto simp: offer_def split: pass_splits)

lemma await_cases [consumes 1, case_names skip got late gone]:
  assumes "await d e f = (c, f')"
  obtains "gotBackPressure f" "c = Next" "f' = f"
    | t where "\<not> gotBackPressure f" "c = Next"
        "f' = log [Result (reply e) t] (f\<lparr>res := reply e, now := t\<rparr>)"
    | t where "\<not> gotBackPressure f" "c = Next"
        "f' = log [WaitTimeout t, Reclaim] (f\<lparr>gotBackPressure := True, now := t\<rparr>)"
    | t where "c = Exit" "f' = f\<lparr>now := t\<rparr>"
  using assms by (auto simp: await_def split: pass_splits)

lemma Ack_cases [consumes 1, case_names delivered cancelled stuck]:
  assumes "Ack e f = (c, f')"
  obtains t where "c = Next"
        "f' = log [AckCall (res f) (now f), AckUp (res f) t] (f\<lparr>now := t\<rparr>)"
    | t where "c = Exit" "f' = log [AckCall (res f) (now f)] (f\<lparr>now := t\<rparr>)"
    | "c = Stuck" "ctx_done e = None" "f' = log [AckCall (res f) (now f)] f"
  using assms by (auto simp: Ack_def split: pass_splits)


lemma unguarded_cases [consumes 1, case_names got left]:
  assumes "unguarded e p f = (c, f')"
  obtains t u where "c = Next"
        "f' = log [Send p t, Result (reply e) u] (f\<lparr>res := reply e, now := u\<rparr>)"
    | "c = Exit \<or> c = Stuck \<and> ctx_done e = None" "res f' = res f"
        "gotBackPressure f' = gotBackPressure f"
        "trace f' = trace f \<or> (\<exists>t. trace f' = trace f @ [Send p t])"
  using assms by (auto simp: unguarded_def log_def split: pass_splits)

lemma guarded_cases
  [consumes 1, case_names miss send_timeout hit_timeout sent_timeout hit_result sent_result left]:
  assumes "guarded d e p \<lparr>gotBackPressure = g, res = None, now = 0, trace = []\<rparr> = (c, f)"
  obtains "g" "c = Next"
      "f = \<lparr>gotBackPressure = True, res = drop_result d, now = 0,
            trace = [TrySend p False, WarnBackPressure]\<rparr>"
  | t where "\<not> g" "c = Next"
      "f = \<lparr>gotBackPressure = True, res = drop_result d, now = t,
            trace = [SendTimeout t, WarnBackPressure]\<rparr>"
  | t where "g" "c = Next"
      "f = \<lparr>gotBackPressure = True, res = drop_result d, now = t,
            trace = [TrySend p True, WaitTimeout t, Reclaim, WarnBackPressure]\<rparr>"
  | u t where "\<not> g" "c = Next"
      "f = \<lparr>gotBackPressure = True, res = drop_result d, now = t,
            trace = [Send p u, WaitTimeout t, Reclaim, WarnBackPressure]\<rparr>"
  | t where "g" "c = Next"
      "f = \<lparr>gotBackPressure = False, res = reply e, now = t,
            trace = [TrySend p True, Result (reply e) t]\<rparr>"
  | u t where "\<not> g" "c = Next"
      "f = \<lparr>gotBackPressure = False, res = reply e, now = t,
            trace = [Send p u, Result (reply e) t]\<rparr>"
  | "c = Exit" "res f = None"
      "g \<and> trace f = [TrySend p True]
       \<or> \<not> g \<and> (trace f = [] \<or> (\<exists>u. trace f = [Send p u]))"
proof -
  let ?f0 = "\<lparr>gotBackPressure = g, res = None, now = 0, trace = []\<rparr>"
  obtain c1 f1 where o: "offer d e p ?f0 = (c1, f1)"
    by (cases "offer d e p ?f0")
  obtain c2 f2 where a: "await d e f1 = (c2, f2)"
    by (cases "await d e f1")
  from o show thesis
  proof (cases rule: offer_cases)
    case miss
    with a o assms that(1) show thesis
      by (auto simp: guarded_def await_def dropped_def drop_result_def log_def)
  next
    case hit
    from a show thesis
      by (cases rule: await_cases)
         (use hit o a assms that in \<open>auto simp: guarded_def dropped_def drop_result_def log_def\<close>)
  next
    case (sent t)
    from a show thesis
      by (cases rule: await_cases)
         (use sent o a assms that in \<open>auto simp: guarded_def dropped_def drop_result_def log_def\<close>)
  next
    case (late t)
    with a o assms that(2) show thesis
      by (auto simp: guarded_def await_def dropped_def drop_result_def log_def)
  next
    case (gone t)
    with o assms that(7) show thesis
      by (auto simp: guarded_def)
  qed
qed

lemma handle_cases
  [consumes 1, case_names miss send_timeout hit_timeout sent_timeout hit_result sent_result
    plain left]:
  assumes "handle d g e p = (c, f)"
  obtains "0 < onBackpressure d" "g"
      "Ack e \<lparr>gotBackPressure = True, res = drop_result d, now = 0,
            trace = [TrySend p False, WarnBackPressure]\<rparr> = (c, f)"
  | t where "0 < onBackpressure d" "\<not> g"
      "Ack e \<lparr>gotBackPressure = True, res = drop_result d, now = t,
            trace = [SendTimeout t, WarnBackPressure]\<rparr> = (c, f)"
  | t where "0 < onBackpressure d" "g"
      "Ack e \<lparr>gotBackPressure = True, res = drop_result d, now = t,
            trace = [TrySend p True, WaitTimeout t, Reclaim, WarnBackPressure]\<rparr> = (c, f)"
  | u t where "0 < onBackpressure d" "\<not> g"
      "Ack e \<lparr>gotBackPressure = True, res = drop_result d, now = t,
            trace = [Send p u, WaitTimeout t, Reclaim, WarnBackPressure]\<rparr> = (c, f)"
  | t where "0 < onBackpressure d" "g"
      "Ack e (drop_error d \<lparr>gotBackPressure = False, res = reply e, now = t,
            trace = [TrySend p True, Result (reply e) t]\<rparr>) = (c, f)"
  | u t where "0 < onBackpressure d" "\<not> g"
      "Ack e (drop_error d \<lparr>gotBackPressure = False, res = reply e, now = t,
            trace = [Send p u, Result (reply e) t]\<rparr>) = (c, f)"
  | u t where "\<not> 0 < onBackpressure d"
      "Ack e (drop_error d \<lparr>gotBackPressure = g, res = reply e, now = t,
            trace = [Send p u, Result (reply e) t]\<rparr>) = (c, f)"
  | "c = Exit \<or> c = Stuck \<and> ctx_done e = None" "res f = None"
      "0 < onBackpressure d \<and> g \<and> trace f = [TrySend p True]
       \<or> (\<not> 0 < onBackpressure d \<or> \<not> g) \<and> (trace f = [] \<or> (\<exists>u. trace f = [Send p u]))"
proof (cases "0 < onBackpressure d")
  case True
  let ?f0 = "\<lparr>gotBackPressure = g, res = None, now = 0, trace = []\<rparr>"
  obtain c1 f1 where gd: "guarded d e p ?f0 = (c1, f1)"
    by (cases "guarded d e p ?f0")
  have dr: "\<And>g' t tr. drop_error d \<lparr>gotBackPressure = g', res = drop_result d, now = t, trace = tr\<rparr>
      = \<lparr>gotBackPressure = g', res = drop_result d, now = t, trace = tr\<rparr>"
    by (simp add: drop_error_def drop_result_def)
  from gd show thesis
    by (cases rule: guarded_cases)
       (use True gd assms that dr in \<open>auto simp: handle_def\<close>)
next
  case False
  let ?f0 = "\<lparr>gotBackPressure = g, res = None, now = 0, trace = []\<rparr>"
  obtain c1 f1 where ug: "unguarded e p ?f0 = (c1, f1)"
    by (cases "unguarded e p ?f0")
  from ug show thesis
    by (cases rule: unguarded_cases)
       (use False ug assms that in \<open>auto simp: handle_def log_def\<close>)
qed


lemma handle_acks:
  assumes "handle d g e p = (c, f)"
  shows "length (filter is_AckUp (trace f)) = (if c = Next then 1 else 0)"
  using assms
  by (cases rule: handle_cases)
     (auto elim!: Ack_cases simp: log_def drop_error_def split: option.splits if_splits)

lemma handle_onError:
  assumes "handle d g e p = (c, f)" and "onError d"
    and "AckCall v t \<in> set (trace f) \<or> AckUp v t \<in> set (trace f)"
  shows "v = None"
  using assms
  by (cases rule: handle_cases)
     (auto elim!: Ack_cases simp: log_def drop_error_def drop_result_def
           split: option.splits if_splits)

lemma handle_child_failure:
  assumes "handle d g e p = (c, f)" and "onError d" and "Result (Some x) t \<in> set (trace f)"
  shows "WarnError x \<in> set (trace f) \<and> (\<exists>u. AckCall None u \<in> set (trace f))
         \<and> (c = Next \<longrightarrow> (\<exists>u. AckUp None u \<in> set (trace f)))"
  using assms
  by (cases rule: handle_cases)
     (auto elim!: Ack_cases simp: log_def drop_error_def drop_result_def
           split: option.splits if_splits)

lemma handle_dropped_iff:
  assumes "handle d g e p = (c, f)"
  shows "WarnBackPressure \<in> set (trace f) \<longleftrightarrow>
     TrySend p False \<in> set (trace f) \<or> (\<exists>t. SendTimeout t \<in> set (trace f))
       \<or> (\<exists>t. WaitTimeout t \<in> set (trace f))"
  using assms
  by (cases rule: handle_cases)
     (auto elim!: Ack_cases simp: log_def drop_error_def split: option.splits if_splits)

lemma handle_dropped:
  assumes "handle d g e p = (c, f)" and "WarnBackPressure \<in> set (trace f)"
  shows "0 < onBackpressure d \<and> gotBackPressure f
   \<and> (\<exists>t. AckCall (drop_result d) t \<in> set (trace f))
   \<and> (\<forall>v t. AckCall v t \<in> set (trace f) \<or> AckUp v t \<in> set (trace f) \<longrightarrow> v = drop_result d)"
  using assms
  by (cases rule: handle_cases)
     (auto elim!: Ack_cases simp: log_def drop_error_def split: option.splits if_splits)

lemma handle_not_Stuck:
  assumes "handle d g e p = (c, f)" and "ctx_done e \<noteq> None"
  shows "c \<noteq> Stuck"
  using assms
  by (cases rule: handle_cases) (auto elim!: Ack_cases)

section \<open>Facts about the loop\<close>






lemma rounds_onError:
  assumes "onError d"
  shows "At i (AckUp v t) \<in> set (fst (rounds d g n rs)) \<Longrightarrow> v = None"
proof (induction rs arbitrary: g n)
  case Nil
  then show ?case by simp
next
  case (Cons r rs)
  show ?case
  proof (cases r)
    case (Transaction p e)
    obtain c f where h: "handle d g e p = (c, f)"
      by (cases "handle d g e p")
    have here: "AckUp v t \<in> set (trace f) \<Longrightarrow> v = None"
      using handle_onError [OF h assms] by blast
    show ?thesis
    proof (cases c)
      case Next
      obtain tr fin where r: "rounds d (gotBackPressure f) (Suc n) rs = (tr, fin)"
        by (cases "rounds d (gotBackPressure f) (Suc n) rs")
      with Cons.prems Transaction h Next
      have "AckUp v t \<in> set (trace f) \<or> At i (AckUp v t) \<in> set tr"
        by auto
      with here Cons.IH [of "gotBackPressure f" "Suc n"] r show ?thesis
        by auto
    next
      case Exit
      with Cons.prems Transaction h here show ?thesis
        by auto
    next
      case Stuck
      with Cons.prems Transaction h here show ?thesis
        by auto
    qed
  next
    case Closed
    with Cons.prems show ?thesis by simp
  next
    case Done
    with Cons.prems show ?thesis by simp
  qed
qed

lemma loop_onError:
  assumes "onError d" and "At i (AckUp v t) \<in> set (fst (loop mw d rs))"
  shows "v = None"
proof -
  obtain tr fin where r: "rounds d False 0 rs = (tr, fin)"
    by (cases "rounds d False 0 rs")
  with assms(2) have "At i (AckUp v t) \<in> set tr"
    by (cases fin) (auto simp: loop_def deferred_def Let_def split: prod.splits)
  with rounds_onError [OF assms(1), of i v t False 0 rs] r show ?thesis
    by simp
qed

lemmas run_defs = handle_def guarded_def unguarded_def offer_def await_def dropped_def
  drop_error_def Ack_def log_def go_select_def ready_def earliest_def

section \<open>Acknowledgements\<close>




text \<open>
  Claim C4. A pass drops the message for back pressure when the non-blocking send of the
  sticky state finds the child not ready, or the ticker fires before the child takes the
  transaction, or before its result arrives. The loop then warns and calls \<open>Ack\<close>
  with nil when \<open>onError\<close> is set and otherwise with the error that carries the
  configured duration; no acknowledgement of the pass carries anything else, and the
  producer receives it when the pass runs to its end.
\<close>

theorem dropped_for_back_pressure:
  assumes "handle d g e p = (c, f)"
    and "TrySend p False \<in> set (trace f) \<or> (\<exists>t. SendTimeout t \<in> set (trace f))
         \<or> (\<exists>t. WaitTimeout t \<in> set (trace f))"
  shows "0 < onBackpressure d \<and> WarnBackPressure \<in> set (trace f)
         \<and> (\<exists>t. AckCall (drop_result d) t \<in> set (trace f))
         \<and> (\<forall>v t. AckCall v t \<in> set (trace f) \<or> AckUp v t \<in> set (trace f)
               \<longrightarrow> v = drop_result d)
         \<and> (c = Next \<longrightarrow> (\<exists>t. AckUp (drop_result d) t \<in> set (trace f)))
         \<and> drop_result d
             = (if onError d then None else Some (ErrBackPressure (onBackpressure d)))"
proof -
  from assms have w: "WarnBackPressure \<in> set (trace f)"
    using handle_dropped_iff by blast
  note dr = handle_dropped [OF assms(1) w]
  have "c = Next \<longrightarrow> (\<exists>t. AckUp (drop_result d) t \<in> set (trace f))"
  proof
    assume "c = Next"
    with handle_acks [OF assms(1)] have "filter is_AckUp (trace f) \<noteq> []"
      by auto
    then obtain x where x: "x \<in> set (trace f)" "is_AckUp x"
      by (metis filter_False)
    from x(2) obtain v t where "x = AckUp v t"
      by (cases x) auto
    with x dr show "\<exists>t. AckUp (drop_result d) t \<in> set (trace f)"
      by blast
  qed
  with w dr show ?thesis
    by (simp add: drop_result_def)
qed

theorem dropped_for_back_pressure_witness:
  "handle sample_dropOn False env_stalled [''m'']
     = (Next, \<lparr>gotBackPressure = True, res = Some (ErrBackPressure 10), now = 11,
          trace = [SendTimeout 10, WarnBackPressure, AckCall (Some (ErrBackPressure 10)) 10,
                   AckUp (Some (ErrBackPressure 10)) 11]\<rparr>)
   \<and> drop_result sample_dropOn = Some (ErrBackPressure 10)
   \<and> handle (sample_dropOn\<lparr>onError := True\<rparr>) True env_stalled [''m'']
     = (Next, \<lparr>gotBackPressure = True, res = None, now = 1,
          trace = [TrySend [''m''] False, WarnBackPressure, AckCall None 0, AckUp None 1]\<rparr>)
   \<and> drop_result (sample_dropOn\<lparr>onError := True\<rparr>) = None"
  using dropped_for_back_pressure [of sample_dropOn False env_stalled "[''m'']" Next
      "\<lparr>gotBackPressure = True, res = Some (ErrBackPressure 10), now = 11,
          trace = [SendTimeout 10, WarnBackPressure, AckCall (Some (ErrBackPressure 10)) 10,
                   AckUp (Some (ErrBackPressure 10)) 11]\<rparr>"]
    dropped_for_back_pressure [of "sample_dropOn\<lparr>onError := True\<rparr>" True env_stalled "[''m'']"
      Next "\<lparr>gotBackPressure = True, res = None, now = 1,
          trace = [TrySend [''m''] False, WarnBackPressure, AckCall None 0, AckUp None 1]\<rparr>"]
  by (simp add: run_defs drop_result_def sample_dropOn_def env_stalled_def env_prompt_def)

text \<open>
  Claim C5. With \<open>onError\<close> set, a pass that receives a failure from the child warns,
  calls \<open>Ack\<close> with nil, and the producer receives nil when the pass runs to its end;
  and in a whole run of the loop every acknowledgement that a producer receives is nil.
\<close>

theorem errors_become_success:
  assumes "onError d"
  shows "(handle d g e p = (c, f) \<and> Result (Some x) t \<in> set (trace f) \<longrightarrow>
            WarnError x \<in> set (trace f) \<and> (\<exists>u. AckCall None u \<in> set (trace f))
            \<and> (c = Next \<longrightarrow> (\<exists>u. AckUp None u \<in> set (trace f))))
         \<and> (handle d g e p = (c, f) \<and> (AckCall v u \<in> set (trace f) \<or> AckUp v u \<in> set (trace f))
              \<longrightarrow> v = None)
         \<and> (At i (AckUp v u) \<in> set (fst (loop mw d rs)) \<longrightarrow> v = None)"
  using assms handle_child_failure [of d g e p c f x t] handle_onError [of d g e p c f v u]
    loop_onError [of d i v u mw rs]
  by blast

theorem errors_become_success_witness:
  "onError (sample_dropOn\<lparr>onError := True\<rparr>)
   \<and> handle (sample_dropOn\<lparr>onError := True\<rparr>) False env_failing [''m'']
     = (Next, \<lparr>gotBackPressure = False, res = None, now = 6,
          trace = [Send [''m''] 2, Result (Some (Err ''write failed'')) 5,
                   WarnError (Err ''write failed''), AckCall None 5, AckUp None 6]\<rparr>)
   \<and> fst (loop 5 (sample_dropOn\<lparr>onError := True\<rparr>) [Transaction [''m''] env_failing, Closed])
     = [At 0 (Send [''m''] 2), At 0 (Result (Some (Err ''write failed'')) 5),
        At 0 (WarnError (Err ''write failed'')), At 0 (AckCall None 5), At 0 (AckUp None 6),
        CloseTransactionsOut, ChildCloseAsync, ChildWaitForClose 5 None, CloseClosedChan]"
  using errors_become_success [of "sample_dropOn\<lparr>onError := True\<rparr>" False env_failing "[''m'']"
      Next "\<lparr>gotBackPressure = False, res = None, now = 6,
          trace = [Send [''m''] 2, Result (Some (Err ''write failed'')) 5,
                   WarnError (Err ''write failed''), AckCall None 5, AckUp None 6]\<rparr>"
      "Err ''write failed''" 5 None 6 0 5 "[Transaction [''m''] env_failing, Closed]"]
  by (simp add: run_defs loop_def deferred_def child_CloseAsync_def child_WaitForClose_def
      sample_dropOn_def sample_child_def env_failing_def env_prompt_def)

section \<open>Timed runs of one pass\<close>

lemma run_send_timeout:
  assumes "0 < onBackpressure d" and "quiet e (onBackpressure d)"
    and "child_ready e = None \<or> (\<exists>a. child_ready e = Some a \<and> onBackpressure d < a)"
  shows "handle d False e p =
     Ack e \<lparr>gotBackPressure = True, res = drop_result d, now = onBackpressure d,
            trace = [SendTimeout (onBackpressure d), WarnBackPressure]\<rparr>"
proof -
  have "go_select (pick_send e) 0
          [(child_ready e, SelSend), (Some (onBackpressure d), SelTick), (ctx_done e, SelDone)]
        = Some (onBackpressure d, SelTick)"
    using assms by (intro go_select_wins) (auto simp: quiet_def split: option.splits)
  with assms(1) show ?thesis
    by (simp add: handle_def guarded_def offer_def await_def dropped_def drop_error_def
        drop_result_def log_def)
qed

lemma run_sent:
  assumes "0 < onBackpressure d" and "quiet e (onBackpressure d)"
    and "child_ready e = Some a" and "0 \<le> a" and "a < onBackpressure d"
  shows "offer d e p \<lparr>gotBackPressure = False, res = None, now = 0, trace = []\<rparr> =
     (Next, \<lparr>gotBackPressure = False, res = None, now = a, trace = [Send p a]\<rparr>)"
proof -
  have "go_select (pick_send e) 0
          [(Some a, SelSend), (Some (onBackpressure d), SelTick), (ctx_done e, SelDone)]
        = Some (a, SelSend)"
    using assms by (intro go_select_wins) (auto simp: quiet_def split: option.splits)
  with assms(3) show ?thesis
    by (simp add: offer_def log_def)
qed

lemma run_hit:
  assumes "child_ready e = Some a" and "a \<le> 0"
  shows "offer d e p \<lparr>gotBackPressure = True, res = None, now = 0, trace = []\<rparr> =
     (Next, \<lparr>gotBackPressure = False, res = None, now = 0, trace = [TrySend p True]\<rparr>)"
  using assms by (simp add: offer_def log_def)

lemma run_result:
  assumes "0 < onBackpressure d" and "quiet e (onBackpressure d)"
    and "reply_after e = Some r" and "0 \<le> r" and "a + r < onBackpressure d"
  shows "await d e \<lparr>gotBackPressure = False, res = None, now = a, trace = tr\<rparr> =
     (Next, \<lparr>gotBackPressure = False, res = reply e, now = a + r,
             trace = tr @ [Result (reply e) (a + r)]\<rparr>)"
proof -
  have "go_select (pick_wait e) a
          [(Some (a + r), SelRes), (Some (onBackpressure d), SelTick), (ctx_done e, SelDone)]
        = Some (a + r, SelRes)"
    using assms by (intro go_select_wins) (auto simp: quiet_def split: option.splits)
  with assms(3) show ?thesis
    by (simp add: await_def log_def)
qed

lemma run_wait_timeout:
  assumes "0 < onBackpressure d" and "quiet e (onBackpressure d)" and "a \<le> onBackpressure d"
    and "reply_after e = None \<or> (\<exists>r. reply_after e = Some r \<and> onBackpressure d < a + r)"
  shows "await d e \<lparr>gotBackPressure = False, res = None, now = a, trace = tr\<rparr> =
     (Next, \<lparr>gotBackPressure = True, res = None, now = onBackpressure d,
             trace = tr @ [WaitTimeout (onBackpressure d), Reclaim]\<rparr>)"
proof -
  have "go_select (pick_wait e) a
          [(map_option (\<lambda>r. a + r) (reply_after e), SelRes),
           (Some (onBackpressure d), SelTick), (ctx_done e, SelDone)]
        = Some (onBackpressure d, SelTick)"
    using assms by (intro go_select_wins) (auto simp: quiet_def split: option.splits)
  then show ?thesis
    by (simp add: await_def log_def)
qed

lemma run_plain:
  assumes "\<not> 0 < onBackpressure d" and "child_ready e = Some a" and "0 \<le> a"
    and "reply_after e = Some r" and "0 \<le> r" and "quiet e (a + r)"
  shows "handle d g e p =
     Ack e (drop_error d \<lparr>gotBackPressure = g, res = reply e, now = a + r,
            trace = [Send p a, Result (reply e) (a + r)]\<rparr>)"
proof -
  have "go_select (pick_send e) 0 [(Some a, SelSend), (ctx_done e, SelDone)] = Some (a, SelSend)"
    using assms by (intro go_select_wins) (auto simp: quiet_def split: option.splits)
  moreover have "go_select (pick_wait e) a [(Some (a + r), SelRes), (ctx_done e, SelDone)]
        = Some (a + r, SelRes)"
    using assms by (intro go_select_wins) (auto simp: quiet_def split: option.splits)
  ultimately show ?thesis
    using assms by (simp add: handle_def unguarded_def log_def)
qed

lemma run_delivered:
  assumes "ack_after e = Some k" and "0 \<le> k" and "quiet e (now f + k)"
  shows "Ack e f = (Next, f\<lparr>now := now f + k,
            trace := trace f @ [AckCall (res f) (now f), AckUp (res f) (now f + k)]\<rparr>)"
proof -
  have "go_select (pick_ack e) (now f) [(Some (now f + k), SelAck), (ctx_done e, SelDone)]
        = Some (now f + k, SelAck)"
    using assms by (intro go_select_wins) (auto simp: quiet_def split: option.splits)
  with assms(1) show ?thesis
    by (simp add: Ack_def log_def)
qed

lemma run_forever:
  assumes "\<not> 0 < onBackpressure d" and "ctx_done e = None"
    and "child_ready e = None \<or> reply_after e = None"
  shows "fst (handle d g e p) = Stuck"
  using assms
  by (auto simp: handle_def unguarded_def split: pass_splits dest: go_select_Some(1))

lemma Ack_finish:
  "\<exists>c f ws. Ack e fr = (c, f) \<and> gotBackPressure f = gotBackPressure fr
     \<and> trace f = trace fr @ AckCall (res fr) (now fr) # ws"
proof -
  obtain c f where a: "Ack e fr = (c, f)"
    by (cases "Ack e fr")
  then show ?thesis
    by (cases rule: Ack_cases) (use a in \<open>auto simp: log_def\<close>)
qed

lemma drop_error_finish:
  "\<exists>ws. gotBackPressure (drop_error d fr) = gotBackPressure fr
     \<and> trace (drop_error d fr) = trace fr @ ws"
  by (simp add: drop_error_def log_def split: option.splits)

lemma run_sent_result:
  assumes "0 < onBackpressure d" and "quiet e (onBackpressure d)"
    and "child_ready e = Some a" and "0 \<le> a"
    and "reply_after e = Some r" and "0 \<le> r" and "a + r < onBackpressure d"
  shows "handle d False e p =
     Ack e (drop_error d \<lparr>gotBackPressure = False, res = reply e, now = a + r,
            trace = [Send p a, Result (reply e) (a + r)]\<rparr>)"
proof -
  from assms have "a < onBackpressure d"
    by simp
  from run_sent [OF assms(1-4) this] run_result [OF assms(1,2,5,6,7)] assms(1)
  show ?thesis
    by (simp add: handle_def guarded_def dropped_def)
qed

lemma run_sent_timeout:
  assumes "0 < onBackpressure d" and "quiet e (onBackpressure d)"
    and "child_ready e = Some a" and "0 \<le> a" and "a < onBackpressure d"
    and "reply_after e = None \<or> (\<exists>r. reply_after e = Some r \<and> onBackpressure d < a + r)"
  shows "handle d False e p =
     Ack e \<lparr>gotBackPressure = True, res = drop_result d, now = onBackpressure d,
            trace = [Send p a, WaitTimeout (onBackpressure d), Reclaim, WarnBackPressure]\<rparr>"
proof -
  from assms(5) have "a \<le> onBackpressure d"
    by simp
  from run_sent [OF assms(1-5)] run_wait_timeout [OF assms(1,2) this assms(6)] assms(1)
  show ?thesis
    by (simp add: handle_def guarded_def dropped_def drop_error_def drop_result_def log_def)
qed

lemma run_miss:
  assumes "0 < onBackpressure d"
    and "child_ready e = None \<or> (\<exists>a. child_ready e = Some a \<and> 0 < a)"
  shows "handle d True e p =
     Ack e \<lparr>gotBackPressure = True, res = drop_result d, now = 0,
            trace = [TrySend p False, WarnBackPressure]\<rparr>"
  using assms
  by (auto simp: handle_def guarded_def offer_def await_def dropped_def drop_error_def
      drop_result_def log_def)

lemma run_hit_result:
  assumes "0 < onBackpressure d" and "quiet e (onBackpressure d)"
    and "child_ready e = Some a" and "a \<le> 0"
    and "reply_after e = Some r" and "0 \<le> r" and "r < onBackpressure d"
  shows "handle d True e p =
     Ack e (drop_error d \<lparr>gotBackPressure = False, res = reply e, now = r,
            trace = [TrySend p True, Result (reply e) r]\<rparr>)"
proof -
  from assms(7) have "0 + r < onBackpressure d"
    by simp
  from run_hit [OF assms(3,4)] run_result [OF assms(1,2,5,6) this] assms(1)
  show ?thesis
    by (simp add: handle_def guarded_def dropped_def)
qed

lemma run_hit_timeout:
  assumes "0 < onBackpressure d" and "quiet e (onBackpressure d)"
    and "child_ready e = Some a" and "a \<le> 0"
    and "reply_after e = None \<or> (\<exists>r. reply_after e = Some r \<and> onBackpressure d < r)"
  shows "handle d True e p =
     Ack e \<lparr>gotBackPressure = True, res = drop_result d, now = onBackpressure d,
            trace = [TrySend p True, WaitTimeout (onBackpressure d), Reclaim,
                     WarnBackPressure]\<rparr>"
proof -
  from assms(1) have le: "0 \<le> onBackpressure d"
    by simp
  from assms(5)
  have "reply_after e = None \<or> (\<exists>r. reply_after e = Some r \<and> onBackpressure d < 0 + r)"
    by simp
  from run_hit [OF assms(3,4)] run_wait_timeout [OF assms(1,2) le this] assms(1)
  show ?thesis
    by (simp add: handle_def guarded_def dropped_def drop_error_def drop_result_def log_def)
qed

lemma sticky_trace:
  assumes "handle d True e p = (c, f)" and "0 < onBackpressure d"
  shows "\<exists>b rest. trace f = TrySend p b # rest \<and> filter is_send rest = []"
  using assms
  by (cases rule: handle_cases)
     (auto elim!: Ack_cases simp: log_def drop_error_def split: option.splits if_splits)

lemma Ack_flag:
  assumes "Ack e f = (c, f')"
  shows "gotBackPressure f' = gotBackPressure f"
  using assms by (cases rule: Ack_cases) (simp_all add: log_def)

lemma plain_flag:
  assumes "handle d g e p = (c, f)" and "\<not> 0 < onBackpressure d"
  shows "gotBackPressure f = g"
proof -
  let ?f0 = "\<lparr>gotBackPressure = g, res = None, now = 0, trace = []\<rparr>"
  obtain c1 f1 where u: "unguarded e p ?f0 = (c1, f1)"
    by (cases "unguarded e p ?f0")
  then have g1: "gotBackPressure f1 = g"
    by (cases rule: unguarded_cases) (simp_all add: log_def)
  show ?thesis
  proof (cases "c1 = Next")
    case True
    with u assms have "Ack e (drop_error d f1) = (c, f)"
      by (simp add: handle_def)
    from Ack_flag [OF this] g1 show ?thesis
      by (simp add: drop_error_def log_def split: option.splits)
  next
    case False
    with u assms have "f = f1"
      by (cases c1) (simp_all add: handle_def)
    with g1 show ?thesis
      by simp
  qed
qed

lemma plain_trace:
  assumes "handle d g e p = (c, f)" and "\<not> 0 < onBackpressure d" and "\<not> onError d"
    and "x \<in> set (trace f)"
  shows "(\<exists>t. x = Send p t) \<or> (\<exists>t. x = Result (reply e) t)
       \<or> (\<exists>t. x = AckCall (reply e) t) \<or> (\<exists>t. x = AckUp (reply e) t)"
  using assms
  by (cases rule: handle_cases)
     (auto elim!: Ack_cases simp: log_def drop_error_def split: option.splits if_splits)

section \<open>Back pressure\<close>

text \<open>
  Claim C2, as amended. With \<open>onBackpressure = d > 0\<close>, outside the sticky state
  and with the context not cancelled before \<open>d\<close>, one ticker of period \<open>d\<close>,
  started when the transaction is received, guards the send and the wait. A child that
  has not taken the transaction at \<open>d\<close> makes the pass sticky and the message
  dropped. When the child takes it at \<open>a < d\<close>, the wait has what remains of
  \<open>d\<close>: a result that arrives \<open>r\<close> later is received when \<open>a + r < d\<close>;
  when it arrives after \<open>d\<close>, or never, the pass becomes sticky at \<open>d\<close>, starts
  the goroutine that drains the child's response, and drops the message.
\<close>

theorem shared_ticker_budget:
  assumes "0 < onBackpressure d" and "quiet e (onBackpressure d)"
  shows "(child_ready e = None \<or> (\<exists>a. child_ready e = Some a \<and> onBackpressure d < a) \<longrightarrow>
            (\<exists>c f. handle d False e p = (c, f) \<and> gotBackPressure f
               \<and> take 3 (trace f)
                   = [SendTimeout (onBackpressure d), WarnBackPressure,
                      AckCall (drop_result d) (onBackpressure d)]))
         \<and> (child_ready e = Some a \<and> 0 \<le> a \<and> reply_after e = Some r \<and> 0 \<le> r
              \<and> a + r < onBackpressure d \<longrightarrow>
            (\<exists>c f. handle d False e p = (c, f) \<and> \<not> gotBackPressure f
               \<and> take 2 (trace f) = [Send p a, Result (reply e) (a + r)]))
         \<and> (child_ready e = Some a \<and> 0 \<le> a \<and> a < onBackpressure d
              \<and> (reply_after e = None
                   \<or> (\<exists>r. reply_after e = Some r \<and> onBackpressure d < a + r)) \<longrightarrow>
            (\<exists>c f. handle d False e p = (c, f) \<and> gotBackPressure f
               \<and> take 5 (trace f)
                   = [Send p a, WaitTimeout (onBackpressure d), Reclaim, WarnBackPressure,
                      AckCall (drop_result d) (onBackpressure d)]))"
proof (intro conjI impI)
  assume "child_ready e = None \<or> (\<exists>a. child_ready e = Some a \<and> onBackpressure d < a)"
  from run_send_timeout [OF assms this, of p]
    Ack_finish [of e "\<lparr>gotBackPressure = True, res = drop_result d, now = onBackpressure d,
            trace = [SendTimeout (onBackpressure d), WarnBackPressure]\<rparr>"]
  show "\<exists>c f. handle d False e p = (c, f) \<and> gotBackPressure f
               \<and> take 3 (trace f)
                   = [SendTimeout (onBackpressure d), WarnBackPressure,
                      AckCall (drop_result d) (onBackpressure d)]"
    by auto
next
  assume h: "child_ready e = Some a \<and> 0 \<le> a \<and> reply_after e = Some r \<and> 0 \<le> r
              \<and> a + r < onBackpressure d"
  let ?fr = "\<lparr>gotBackPressure = False, res = reply e, now = a + r,
            trace = [Send p a, Result (reply e) (a + r)]\<rparr>"
  from h have "handle d False e p = Ack e (drop_error d ?fr)"
    using run_sent_result [OF assms, where a = a and r = r and p = p] by simp
  with Ack_finish [of e "drop_error d ?fr"] drop_error_finish [of d ?fr]
  show "\<exists>c f. handle d False e p = (c, f) \<and> \<not> gotBackPressure f
               \<and> take 2 (trace f) = [Send p a, Result (reply e) (a + r)]"
    by auto
next
  assume h: "child_ready e = Some a \<and> 0 \<le> a \<and> a < onBackpressure d
              \<and> (reply_after e = None
                   \<or> (\<exists>r. reply_after e = Some r \<and> onBackpressure d < a + r))"
  then have "handle d False e p =
     Ack e \<lparr>gotBackPressure = True, res = drop_result d, now = onBackpressure d,
            trace = [Send p a, WaitTimeout (onBackpressure d), Reclaim, WarnBackPressure]\<rparr>"
    using run_sent_timeout [OF assms, where a = a and p = p] by simp
  with Ack_finish [of e "\<lparr>gotBackPressure = True, res = drop_result d, now = onBackpressure d,
            trace = [Send p a, WaitTimeout (onBackpressure d), Reclaim, WarnBackPressure]\<rparr>"]
  show "\<exists>c f. handle d False e p = (c, f) \<and> gotBackPressure f
               \<and> take 5 (trace f)
                   = [Send p a, WaitTimeout (onBackpressure d), Reclaim, WarnBackPressure,
                      AckCall (drop_result d) (onBackpressure d)]"
    by auto
qed

theorem shared_ticker_budget_witness:
  "0 < onBackpressure sample_dropOn \<and> quiet env_prompt (onBackpressure sample_dropOn)
   \<and> child_ready env_prompt = Some 2 \<and> reply_after env_prompt = Some 3
   \<and> (\<exists>c f. handle sample_dropOn False env_prompt [''m''] = (c, f) \<and> \<not> gotBackPressure f
         \<and> take 2 (trace f) = [Send [''m''] 2, Result (reply env_prompt) 5])
   \<and> child_ready env_stalled = None
   \<and> (\<exists>c f. handle sample_dropOn False env_stalled [''m''] = (c, f) \<and> gotBackPressure f
         \<and> take 3 (trace f)
             = [SendTimeout 10, WarnBackPressure, AckCall (Some (ErrBackPressure 10)) 10])"
  using shared_ticker_budget [where d = sample_dropOn and e = env_prompt and a = 2 and r = 3
      and p = "[''m'']"]
    shared_ticker_budget [where d = sample_dropOn and e = env_stalled and a = 2 and r = 3
      and p = "[''m'']"]
  by (simp add: quiet_def drop_result_def sample_dropOn_def env_prompt_def env_stalled_def)

text \<open>
  Claim C2 as stated fails: with \<open>d = 10\<close> the child takes the transaction at 6 and
  its result is there 6 later, within \<open>d\<close> of the send; the ticker fires at 10, the
  result is not received and the message is dropped.
\<close>

theorem shared_ticker_budget_counterexample:
  "onBackpressure sample_dropOn = 10 \<and> child_ready env_slow_reply = Some 6
   \<and> reply_after env_slow_reply = Some 6 \<and> ctx_done env_slow_reply = None
   \<and> handle sample_dropOn False env_slow_reply [''m'']
     = (Next, \<lparr>gotBackPressure = True, res = Some (ErrBackPressure 10), now = 11,
          trace = [Send [''m''] 6, WaitTimeout 10, Reclaim, WarnBackPressure,
                   AckCall (Some (ErrBackPressure 10)) 10,
                   AckUp (Some (ErrBackPressure 10)) 11]\<rparr>)"
  by (simp add: run_defs sample_dropOn_def env_slow_reply_def env_prompt_def)

text \<open>
  Claim C3. With \<open>onBackpressure = d > 0\<close> and in the sticky state, a pass begins
  with one non-blocking send and offers the transaction to the child in no other way.
  When the child is not ready at that moment the message is dropped at once: \<open>Ack\<close>
  is called at time 0 and the pass stays sticky. When the child takes the transaction the
  flag is cleared and the result is awaited under the ticker: a result before \<open>d\<close> is
  received, and at \<open>d\<close> the pass becomes sticky again and the message is dropped.
\<close>

theorem sticky_single_attempt:
  assumes "0 < onBackpressure d"
  shows "(handle d True e p = (c, f) \<longrightarrow>
            (\<exists>b rest. trace f = TrySend p b # rest \<and> filter is_send rest = []))
         \<and> (child_ready e = None \<or> (\<exists>a. child_ready e = Some a \<and> 0 < a) \<longrightarrow>
            (\<exists>c f. handle d True e p = (c, f) \<and> gotBackPressure f
               \<and> take 3 (trace f)
                   = [TrySend p False, WarnBackPressure, AckCall (drop_result d) 0]))
         \<and> (child_ready e = Some a \<and> a \<le> 0 \<and> reply_after e = Some r \<and> 0 \<le> r
              \<and> r < onBackpressure d \<and> quiet e (onBackpressure d) \<longrightarrow>
            (\<exists>c f. handle d True e p = (c, f) \<and> \<not> gotBackPressure f
               \<and> take 2 (trace f) = [TrySend p True, Result (reply e) r]))
         \<and> (child_ready e = Some a \<and> a \<le> 0
              \<and> (reply_after e = None \<or> (\<exists>r. reply_after e = Some r \<and> onBackpressure d < r))
              \<and> quiet e (onBackpressure d) \<longrightarrow>
            (\<exists>c f. handle d True e p = (c, f) \<and> gotBackPressure f
               \<and> take 5 (trace f)
                   = [TrySend p True, WaitTimeout (onBackpressure d), Reclaim,
                      WarnBackPressure, AckCall (drop_result d) (onBackpressure d)]))"
proof (intro conjI impI)
  assume "handle d True e p = (c, f)"
  from sticky_trace [OF this assms]
  show "\<exists>b rest. trace f = TrySend p b # rest \<and> filter is_send rest = []" .
next
  assume "child_ready e = None \<or> (\<exists>a. child_ready e = Some a \<and> 0 < a)"
  from run_miss [OF assms this, of p]
    Ack_finish [of e "\<lparr>gotBackPressure = True, res = drop_result d, now = 0,
            trace = [TrySend p False, WarnBackPressure]\<rparr>"]
  show "\<exists>c f. handle d True e p = (c, f) \<and> gotBackPressure f
               \<and> take 3 (trace f)
                   = [TrySend p False, WarnBackPressure, AckCall (drop_result d) 0]"
    by auto
next
  assume h: "child_ready e = Some a \<and> a \<le> 0 \<and> reply_after e = Some r \<and> 0 \<le> r
              \<and> r < onBackpressure d \<and> quiet e (onBackpressure d)"
  let ?fr = "\<lparr>gotBackPressure = False, res = reply e, now = r,
            trace = [TrySend p True, Result (reply e) r]\<rparr>"
  from h have "handle d True e p = Ack e (drop_error d ?fr)"
    using run_hit_result [OF assms, where e = e and a = a and r = r and p = p] by simp
  with Ack_finish [of e "drop_error d ?fr"] drop_error_finish [of d ?fr]
  show "\<exists>c f. handle d True e p = (c, f) \<and> \<not> gotBackPressure f
               \<and> take 2 (trace f) = [TrySend p True, Result (reply e) r]"
    by auto
next
  assume h: "child_ready e = Some a \<and> a \<le> 0
              \<and> (reply_after e = None \<or> (\<exists>r. reply_after e = Some r \<and> onBackpressure d < r))
              \<and> quiet e (onBackpressure d)"
  then have "handle d True e p =
     Ack e \<lparr>gotBackPressure = True, res = drop_result d, now = onBackpressure d,
            trace = [TrySend p True, WaitTimeout (onBackpressure d), Reclaim,
                     WarnBackPressure]\<rparr>"
    using run_hit_timeout [OF assms, where e = e and a = a and p = p] by simp
  with Ack_finish [of e "\<lparr>gotBackPressure = True, res = drop_result d, now = onBackpressure d,
            trace = [TrySend p True, WaitTimeout (onBackpressure d), Reclaim,
                     WarnBackPressure]\<rparr>"]
  show "\<exists>c f. handle d True e p = (c, f) \<and> gotBackPressure f
               \<and> take 5 (trace f)
                   = [TrySend p True, WaitTimeout (onBackpressure d), Reclaim,
                      WarnBackPressure, AckCall (drop_result d) (onBackpressure d)]"
    by auto
qed

theorem sticky_single_attempt_witness:
  "0 < onBackpressure sample_dropOn
   \<and> child_ready env_stalled = None
   \<and> handle sample_dropOn True env_stalled [''m'']
     = (Next, \<lparr>gotBackPressure = True, res = Some (ErrBackPressure 10), now = 1,
          trace = [TrySend [''m''] False, WarnBackPressure,
                   AckCall (Some (ErrBackPressure 10)) 0,
                   AckUp (Some (ErrBackPressure 10)) 1]\<rparr>)
   \<and> filter is_send [WarnBackPressure, AckCall (Some (ErrBackPressure 10)) 0,
                   AckUp (Some (ErrBackPressure 10)) 1] = []
   \<and> child_ready env_ready_now = Some 0 \<and> reply_after env_ready_now = Some 3
   \<and> quiet env_ready_now (onBackpressure sample_dropOn)
   \<and> (\<exists>c f. handle sample_dropOn True env_ready_now [''m''] = (c, f) \<and> \<not> gotBackPressure f
         \<and> take 2 (trace f) = [TrySend [''m''] True, Result (reply env_ready_now) 3])"
  using sticky_single_attempt [where d = sample_dropOn and e = env_stalled and p = "[''m'']"
      and c = Next and a = 0 and r = 3
      and f = "\<lparr>gotBackPressure = True, res = Some (ErrBackPressure 10), now = 1,
          trace = [TrySend [''m''] False, WarnBackPressure,
                   AckCall (Some (ErrBackPressure 10)) 0,
                   AckUp (Some (ErrBackPressure 10)) 1]\<rparr>"]
    sticky_single_attempt [where d = sample_dropOn and e = env_ready_now and p = "[''m'']"
      and a = 0 and r = 3]
  by (simp add: run_defs quiet_def drop_result_def sample_dropOn_def env_stalled_def
      env_ready_now_def env_prompt_def)

section \<open>Both drop modes off\<close>

text \<open>
  Claim C10. With \<open>onError\<close> false and no back pressure duration, a pass only
  forwards the payload as it is, receives the child's result and acknowledges with exactly
  that result: no other event occurs and \<open>gotBackPressure\<close> is left as it was. When
  the child takes the transaction at \<open>a\<close>, its result arrives \<open>r\<close> later and the
  producer takes the acknowledgement \<open>k\<close> later, however large these are, and the
  context is not cancelled before, the pass is exactly that sequence. And while the
  context is not cancelled, a child that never takes the transaction or never answers
  keeps the loop blocked for ever.
\<close>

theorem pass_through:
  assumes "\<not> onError d" and "\<not> 0 < onBackpressure d"
  shows "(handle d g e p = (c, f) \<longrightarrow>
            gotBackPressure f = g
            \<and> (\<forall>x \<in> set (trace f).
                  (\<exists>t. x = Send p t) \<or> (\<exists>t. x = Result (reply e) t)
                  \<or> (\<exists>t. x = AckCall (reply e) t) \<or> (\<exists>t. x = AckUp (reply e) t)))
         \<and> (child_ready e = Some a \<and> 0 \<le> a \<and> reply_after e = Some r \<and> 0 \<le> r
              \<and> ack_after e = Some k \<and> 0 \<le> k \<and> quiet e (a + r + k) \<longrightarrow>
            handle d g e p =
              (Next, \<lparr>gotBackPressure = g, res = reply e, now = a + r + k,
                 trace = [Send p a, Result (reply e) (a + r), AckCall (reply e) (a + r),
                          AckUp (reply e) (a + r + k)]\<rparr>))
         \<and> (ctx_done e = None \<and> (child_ready e = None \<or> reply_after e = None) \<longrightarrow>
            fst (handle d g e p) = Stuck)"
proof (intro conjI impI)
  assume h: "handle d g e p = (c, f)"
  from plain_flag [OF h assms(2)] show "gotBackPressure f = g" .
  from plain_trace [OF h assms(2) assms(1)]
  show "\<forall>x \<in> set (trace f).
                  (\<exists>t. x = Send p t) \<or> (\<exists>t. x = Result (reply e) t)
                  \<or> (\<exists>t. x = AckCall (reply e) t) \<or> (\<exists>t. x = AckUp (reply e) t)"
    by blast
next
  assume h: "child_ready e = Some a \<and> 0 \<le> a \<and> reply_after e = Some r \<and> 0 \<le> r
              \<and> ack_after e = Some k \<and> 0 \<le> k \<and> quiet e (a + r + k)"
  let ?fr = "\<lparr>gotBackPressure = g, res = reply e, now = a + r,
            trace = [Send p a, Result (reply e) (a + r)]\<rparr>"
  from h have q: "quiet e (a + r)"
    by (auto simp: quiet_def split: option.splits)
  from h q have "handle d g e p = Ack e (drop_error d ?fr)"
    using run_plain [OF assms(2), where e = e and a = a and r = r and g = g and p = p]
    by simp
  moreover from assms(1) have "drop_error d ?fr = ?fr"
    by (simp add: drop_error_def split: option.splits)
  moreover from h have "Ack e ?fr = (Next, ?fr\<lparr>now := now ?fr + k,
            trace := trace ?fr @ [AckCall (res ?fr) (now ?fr), AckUp (res ?fr) (now ?fr + k)]\<rparr>)"
    by (intro run_delivered) simp_all
  ultimately show "handle d g e p =
              (Next, \<lparr>gotBackPressure = g, res = reply e, now = a + r + k,
                 trace = [Send p a, Result (reply e) (a + r), AckCall (reply e) (a + r),
                          AckUp (reply e) (a + r + k)]\<rparr>)"
    by simp
next
  assume "ctx_done e = None \<and> (child_ready e = None \<or> reply_after e = None)"
  with run_forever [OF assms(2), of e g p] show "fst (handle d g e p) = Stuck"
    by simp
qed

theorem pass_through_witness:
  "\<not> onError (sample_dropOn\<lparr>onBackpressure := 0\<rparr>)
   \<and> \<not> 0 < onBackpressure (sample_dropOn\<lparr>onBackpressure := 0\<rparr>)
   \<and> child_ready env_failing = Some 2 \<and> reply_after env_failing = Some 3
   \<and> ack_after env_failing = Some 1 \<and> quiet env_failing (2 + 3 + 1)
   \<and> handle (sample_dropOn\<lparr>onBackpressure := 0\<rparr>) False env_failing [''m'']
     = (Next, \<lparr>gotBackPressure = False, res = Some (Err ''write failed''), now = 6,
          trace = [Send [''m''] 2, Result (Some (Err ''write failed'')) 5,
                   AckCall (Some (Err ''write failed'')) 5,
                   AckUp (Some (Err ''write failed'')) 6]\<rparr>)
   \<and> ctx_done env_silent = None \<and> reply_after env_silent = None
   \<and> fst (handle (sample_dropOn\<lparr>onBackpressure := 0\<rparr>) False env_silent [''m'']) = Stuck"
  using pass_through [where d = "sample_dropOn\<lparr>onBackpressure := 0\<rparr>" and e = env_failing
      and g = False and p = "[''m'']" and a = 2 and r = 3 and k = 1 and c = Next
      and f = "\<lparr>gotBackPressure = False, res = Some (Err ''write failed''), now = 6,
          trace = [Send [''m''] 2, Result (Some (Err ''write failed'')) 5,
                   AckCall (Some (Err ''write failed'')) 5,
                   AckUp (Some (Err ''write failed'')) 6]\<rparr>"]
    pass_through [where d = "sample_dropOn\<lparr>onBackpressure := 0\<rparr>" and e = env_silent
      and g = False and p = "[''m'']"]
  by (simp add: quiet_def sample_dropOn_def env_failing_def env_silent_def env_prompt_def)

lemma rounds_At: "x \<in> set (fst (rounds d g n rs)) \<Longrightarrow> \<exists>i ev. x = At i ev"
proof (induction rs arbitrary: g n)
  case Nil
  then show ?case by simp
next
  case (Cons r rs)
  show ?case
  proof (cases r)
    case (Transaction p e)
    obtain c f where h: "handle d g e p = (c, f)"
      by (cases "handle d g e p")
    show ?thesis
    proof (cases c)
      case Next
      obtain tr fin where r: "rounds d (gotBackPressure f) (Suc n) rs = (tr, fin)"
        by (cases "rounds d (gotBackPressure f) (Suc n) rs")
      with Cons.prems Transaction h Next
      have "x \<in> At n ` set (trace f) \<or> x \<in> set tr"
        by auto
      with Cons.IH [of "gotBackPressure f" "Suc n"] r show ?thesis
        by auto
    next
      case Exit
      with Cons.prems Transaction h show ?thesis
        by auto
    next
      case Stuck
      with Cons.prems Transaction h show ?thesis
        by auto
    qed
  next
    case Closed
    with Cons.prems show ?thesis by simp
  next
    case Done
    with Cons.prems show ?thesis by simp
  qed
qed

lemma rounds_interrupted:
  "list_all interrupted rs \<Longrightarrow> Done \<in> set rs \<Longrightarrow> snd (rounds d g n rs)"
proof (induction rs arbitrary: g n)
  case Nil
  then show ?case by simp
next
  case (Cons r rs)
  show ?case
  proof (cases r)
    case (Transaction p e)
    obtain c f where h: "handle d g e p = (c, f)"
      by (cases "handle d g e p")
    from Cons.prems Transaction have "ctx_done e \<noteq> None"
      by simp
    from handle_not_Stuck [OF h this] have ns: "c \<noteq> Stuck" .
    show ?thesis
    proof (cases c)
      case Next
      from Cons.prems Transaction have "list_all interrupted rs" "Done \<in> set rs"
        by auto
      from Cons.IH [OF this, of "gotBackPressure f" "Suc n"] Transaction h Next show ?thesis
        by (auto split: prod.splits)
    next
      case Exit
      with Transaction h show ?thesis
        by simp
    next
      case Stuck
      with ns show ?thesis
        by simp
    qed
  qed simp_all
qed

lemma WaitForClose_nil:
  assumes "dropOn_WaitForClose pick closes_at d timeout = None"
  shows "closedChan d \<or> closes_at \<noteq> None"
proof -
  from assms obtain t where
    "go_select pick 0 [(if closedChan d then Some 0 else closes_at, SelClosed),
        (Some timeout, SelTick)] = Some (t, SelClosed)"
    by (auto simp: dropOn_WaitForClose_def split: option.splits prod.splits sel.splits)
  from go_select_Some(1) [OF this] show ?thesis
    by (auto split: if_splits)
qed

section \<open>Shutdown\<close>

text \<open>
  Claim C6, as amended. Once the context is cancelled the loop returns: no pass blocks,
  and the select at the head of the loop takes the cancellation. A loop that returns
  closes the outbound channel, asks the child to close, waits for the child for at most
  the maximum shutdown wait, and closes \<open>closedChan\<close> last: when the child closed in
  time, and also when the wait timed out, for the loop discards its error. Before that
  \<open>closedChan\<close> is open, and \<open>WaitForClose\<close> returns nil only on a closed
  \<open>closedChan\<close>.
\<close>

theorem shutdown_order:
  assumes "\<not> closedChan d"
  shows "(list_all interrupted rs \<and> Done \<in> set rs \<longrightarrow> closedChan (snd (loop mw d rs)))
         \<and> (closedChan (snd (loop mw d rs)) \<longrightarrow>
              (\<exists>pre r. fst (loop mw d rs)
                         = pre @ [CloseTransactionsOut, ChildCloseAsync,
                                  ChildWaitForClose mw r, CloseClosedChan]
                 \<and> CloseClosedChan \<notin> set pre
                 \<and> outClosed (snd (loop mw d rs))
                 \<and> c_closing (wrapped (snd (loop mw d rs)))
                 \<and> (r = None \<and> c_closed (wrapped (snd (loop mw d rs)))
                      \<or> r = Some ErrTimeout)))
         \<and> (dropOn_WaitForClose pick None (snd (loop mw d rs)) timeout = None \<longrightarrow>
              closedChan (snd (loop mw d rs)))"
proof (intro conjI impI)
  assume "list_all interrupted rs \<and> Done \<in> set rs"
  then have "snd (rounds d False 0 rs)"
    using rounds_interrupted by blast
  then show "closedChan (snd (loop mw d rs))"
    by (auto simp: loop_def deferred_def Let_def split: prod.splits)
next
  assume c: "closedChan (snd (loop mw d rs))"
  obtain tr fin where r: "rounds d False 0 rs = (tr, fin)"
    by (cases "rounds d False 0 rs")
  with c assms have fin: "fin"
    by (cases fin) (auto simp: loop_def)
  have "CloseClosedChan \<notin> set tr"
    using rounds_At [of CloseClosedChan d False 0 rs] r by auto
  with r fin show "\<exists>pre r. fst (loop mw d rs)
                         = pre @ [CloseTransactionsOut, ChildCloseAsync,
                                  ChildWaitForClose mw r, CloseClosedChan]
                 \<and> CloseClosedChan \<notin> set pre
                 \<and> outClosed (snd (loop mw d rs))
                 \<and> c_closing (wrapped (snd (loop mw d rs)))
                 \<and> (r = None \<and> c_closed (wrapped (snd (loop mw d rs)))
                      \<or> r = Some ErrTimeout)"
    by (auto simp: loop_def deferred_def Let_def child_CloseAsync_def child_WaitForClose_def
        split: prod.splits option.splits if_splits)
next
  assume "dropOn_WaitForClose pick None (snd (loop mw d rs)) timeout = None"
  from WaitForClose_nil [OF this] show "closedChan (snd (loop mw d rs))"
    by simp
qed

theorem shutdown_order_witness:
  "\<not> closedChan sample_dropOn
   \<and> list_all interrupted [Transaction [''m''] env_cancelled, Done]
   \<and> loop 5 sample_dropOn [Transaction [''m''] env_prompt, Done]
     = ([At 0 (Send [''m''] 2), At 0 (Result None 5), At 0 (AckCall None 5),
         At 0 (AckUp None 6), CloseTransactionsOut, ChildCloseAsync,
         ChildWaitForClose 5 None, CloseClosedChan],
        sample_dropOn\<lparr>outClosed := True,
          wrapped := sample_child\<lparr>c_closing := True, c_closed := True\<rparr>,
          closedChan := True\<rparr>)
   \<and> closedChan (snd (loop 5 sample_dropOn [Transaction [''m''] env_cancelled, Done]))
   \<and> dropOn_WaitForClose 0 None (snd (loop 5 sample_dropOn [Transaction [''m''] env_prompt, Done])) 1
     = None
   \<and> dropOn_WaitForClose 0 None sample_dropOn 1 = Some ErrTimeout"
  using shutdown_order [where d = sample_dropOn and mw = 5 and pick = 0 and timeout = 1
      and rs = "[Transaction [''m''] env_cancelled, Done]"]
    shutdown_order [where d = sample_dropOn and mw = 5 and pick = 0 and timeout = 1
      and rs = "[Transaction [''m''] env_prompt, Done]"]
  by (simp add: run_defs loop_def deferred_def child_CloseAsync_def child_WaitForClose_def
      dropOn_WaitForClose_def sample_dropOn_def sample_child_def env_cancelled_def
      env_stalled_def env_prompt_def)

text \<open>
  Claim C6 as stated fails for a child that does not close: its \<open>WaitForClose\<close>
  returns the timeout error, the loop discards it and closes \<open>closedChan\<close>, and
  \<open>WaitForClose\<close> of the decorator returns nil while the child is not closed.
\<close>

theorem shutdown_order_counterexample:
  "loop 5 stubborn_dropOn [Done]
     = ([CloseTransactionsOut, ChildCloseAsync, ChildWaitForClose 5 (Some ErrTimeout),
         CloseClosedChan],
        stubborn_dropOn\<lparr>outClosed := True,
          wrapped := sample_child\<lparr>c_closing := True, c_closes_in := None\<rparr>,
          closedChan := True\<rparr>)
   \<and> \<not> c_closed (wrapped (snd (loop 5 stubborn_dropOn [Done])))
   \<and> dropOn_WaitForClose 0 None (snd (loop 5 stubborn_dropOn [Done])) 1 = None"
  by (simp add: loop_def deferred_def child_CloseAsync_def child_WaitForClose_def
      dropOn_WaitForClose_def go_select_def ready_def earliest_def stubborn_dropOn_def
      sample_dropOn_def sample_child_def)

end
